theory Spec2Isabelle
  imports Main "HOL-Library.Sublist"
begin

section \<open>Python primitives used by query.py\<close>

text \<open>
  Strings are ASCII character lists. The builtins the program calls are written out with
  the behaviour the program relies on: \<open>str.strip\<close>, \<open>str.split(",")\<close>,
  \<open>",".join\<close>, \<open>int(str)\<close>, \<open>range\<close>, list slicing and \<open>sorted\<close> with a
  key. Exceptions are values of \<open>exn\<close>; a computation that can raise returns
  \<open>exn + 'a\<close> with \<open>Inl\<close> for the exception.
\<close>

datatype exn =
    HTTPError string
  | RequestException string
  | KeyError string
  | ValueError
  | TypeError




fun py_join :: "string \<Rightarrow> string list \<Rightarrow> string" where
  "py_join sep [] = []"
| "py_join sep [x] = x"
| "py_join sep (x # y # ys) = x @ sep @ py_join sep (y # ys)"

text \<open>
  \<open>int(s)\<close> in base 10: blanks around the numeral are skipped (the C-locale blanks
  \<open>\t \n \v \f \r\<close> and space), one sign is allowed, then decimal digits, where
  single underscores may separate digits. Leading zeros are accepted, so \<open>int("07")\<close>
  is 7. \<open>None\<close> stands for \<open>ValueError\<close>.
\<close>

definition int_isspace :: "char \<Rightarrow> bool" where
  "int_isspace c = (of_char c \<in> {9, 10, 11, 12, 13, 32 :: nat})"

definition digit_val :: "char \<Rightarrow> int option" where
  "digit_val c =
     (let n = (of_char c :: nat)
      in if 48 \<le> n \<and> n \<le> 57 then Some (int n - 48) else None)"

fun digits_val :: "int \<Rightarrow> string \<Rightarrow> int option" where
  "digits_val acc [] = Some acc"
| "digits_val acc [c] =
     (case digit_val c of None \<Rightarrow> None | Some v \<Rightarrow> Some (acc * 10 + v))"
| "digits_val acc (c # d # ds) =
     (if c = CHR ''_'' then
        (case digit_val d of
           None \<Rightarrow> None
         | Some v \<Rightarrow> digits_val (acc * 10 + v) ds)
      else
        (case digit_val c of
           None \<Rightarrow> None
         | Some v \<Rightarrow> digits_val (acc * 10 + v) (d # ds)))"

definition unsigned_val :: "string \<Rightarrow> int option" where
  "unsigned_val u =
     (case u of
        [] \<Rightarrow> None
      | d # ds \<Rightarrow> (case digit_val d of None \<Rightarrow> None | Some v \<Rightarrow> digits_val v ds))"

definition py_int :: "string \<Rightarrow> int option" where
  "py_int s =
     (let t = rev (dropWhile int_isspace (rev (dropWhile int_isspace s)))
      in case t of
           [] \<Rightarrow> None
         | c # r \<Rightarrow>
             if c = CHR ''-'' then map_option uminus (unsigned_val r)
             else if c = CHR ''+'' then unsigned_val r
             else unsigned_val t)"

text \<open>
  \<open>range(start, stop, step)\<close> for \<open>step \<noteq> 0\<close>, by its length as CPython computes it.
  \<open>step = 0\<close> raises \<open>ValueError\<close>; the callers below test for it.
\<close>

definition range_len :: "int \<Rightarrow> int \<Rightarrow> int \<Rightarrow> nat" where
  "range_len start stop step =
     (if 0 < step then (if start < stop then nat ((stop - start - 1) div step + 1) else 0)
      else (if stop < start then nat ((start - stop - 1) div (- step) + 1) else 0))"

definition py_range :: "int \<Rightarrow> int \<Rightarrow> int \<Rightarrow> int list" where
  "py_range start stop step =
     map (\<lambda>k. start + int k * step) [0 ..< range_len start stop step]"

text \<open>\<open>xs[i:j]\<close>: negative bounds count from the end, all bounds are clamped.\<close>

definition slice_bound :: "nat \<Rightarrow> int \<Rightarrow> nat" where
  "slice_bound n k = (if k < 0 then nat (int n + k) else min (nat k) n)"

definition py_slice :: "'a list \<Rightarrow> int \<Rightarrow> int \<Rightarrow> 'a list" where
  "py_slice xs i j =
     (let lo = slice_bound (length xs) i; hi = slice_bound (length xs) j
      in take (hi - lo) (drop lo xs))"

text \<open>
  \<open>sorted(it, key=k)\<close>: the keys of all elements are computed first, in iteration
  order, and the first failing key raises; the sort is stable.
\<close>

fun py_keys :: "('a \<Rightarrow> exn + int) \<Rightarrow> 'a list \<Rightarrow> exn + int list" where
  "py_keys k [] = Inr []"
| "py_keys k (x # xs) =
     (case k x of
        Inl e \<Rightarrow> Inl e
      | Inr n \<Rightarrow> (case py_keys k xs of Inl e \<Rightarrow> Inl e | Inr ns \<Rightarrow> Inr (n # ns)))"

definition py_sorted :: "('a \<Rightarrow> exn + int) \<Rightarrow> 'a list \<Rightarrow> exn + 'a list" where
  "py_sorted k xs =
     (case py_keys k xs of
        Inl e \<Rightarrow> Inl e
      | Inr ns \<Rightarrow> Inr (map snd (sort_key fst (zip ns xs))))"

text \<open>The key \<open>lambda x: int(x)\<close> on a string.\<close>

definition int_key :: "string \<Rightarrow> exn + int" where
  "int_key x = (case py_int x of None \<Rightarrow> Inl ValueError | Some n \<Rightarrow> Inr n)"

text \<open>
  A Python set is kept as the list of the values added to it, in the order of the
  \<open>add\<close> calls; its value is \<open>set\<close> of that list. The order in which the interpreter
  iterates over a set is not fixed by the language: it is a parameter \<open>it\<close> of the
  functions that iterate, constrained only by \<open>set_iteration\<close>.
\<close>

definition set_iteration :: "('a list \<Rightarrow> 'a list) \<Rightarrow> bool" where
  "set_iteration it = (\<forall>xs. distinct (it xs) \<and> set (it xs) = set xs)"


section \<open>The two services as seen by the program\<close>

text \<open>
  A request is what \<open>s.get(url, params=..., timeout=...)\<close> sends, with the headers of
  the session. Parameter values are strings or integers, in the order of the dict
  literal.
\<close>

datatype pval = PStr string | PInt int

record request =
  url :: string
  params :: "(string \<times> pval) list"
  headers :: "(string \<times> string) list"
  timeout :: nat

text \<open>
  The JSON bodies, with exactly the keys the program reads. A key the program reads
  with \<open>.get(key, [])\<close> or \<open>.get(key)\<close> may be absent (\<open>None\<close>); so may a key it
  reads with \<open>[key]\<close>, which then raises \<open>KeyError\<close>. Values have the types of the
  two endpoints: the count is a string, identifiers are strings. An annotation record
  is only counted.
\<close>

datatype annotation = Annotation string

record passage =
  annotations :: "annotation list option"

record document =
  doc_id :: "string option"
  passages :: "passage list option"

record esearch_result =
  count :: "string option"
  idlist :: "string list option"

record json =
  esearchresult :: "esearch_result option"
  documents :: "document list option"

record response =
  status :: nat
  error_text :: string
  body :: json

text \<open>
  \<open>s.get\<close> either raises a \<open>RequestException\<close> that is not an \<open>HTTPError\<close> (timeout,
  connection error, retries exhausted), or returns a response. What it does is the
  transport's final answer, after the retries of the mounted adapter. The services may
  answer differently over time: the answer depends on everything the program did before.
\<close>

datatype outcome = Raised string | Returned response

datatype event = Get request | Sleep nat

type_synonym net = "event list \<Rightarrow> request \<Rightarrow> outcome"

definition EUTILS :: string where
  "EUTILS = ''https://eutils.ncbi.nlm.nih.gov/entrez/eutils/esearch.fcgi''"

definition PT_EXPORT :: string where
  "PT_EXPORT = ''https://www.ncbi.nlm.nih.gov/research/pubtator-api/publications/export/biocjson''"

text \<open>
  \<open>session()\<close>: the retry configuration handed to the adapter and the header put on
  every request. The backoff factor and the sleeps are in milliseconds.
\<close>

record session_cfg =
  retry_total :: nat
  backoff_factor_ms :: nat
  status_forcelist :: "nat list"
  allowed_methods :: "string list"
  session_headers :: "(string \<times> string) list"

definition session :: session_cfg where
  "session = \<lparr>retry_total = 5, backoff_factor_ms = 500,
     status_forcelist = [429, 500, 502, 503, 504], allowed_methods = [''GET''],
     session_headers = [(''User-Agent'', ''PubTatorPMIDFetcher/2.0'')]\<rparr>"

definition raise_for_status :: "response \<Rightarrow> exn + response" where
  "raise_for_status r =
     (if 400 \<le> status r \<and> status r < 600 then Inl (HTTPError (error_text r)) else Inr r)"

text \<open>\<open>r = s.get(u, params=p, timeout=t); r.raise_for_status()\<close>, logging the request.\<close>

definition get_checked ::
  "net \<Rightarrow> event list \<Rightarrow> string \<Rightarrow> (string \<times> pval) list \<Rightarrow> nat \<Rightarrow> event list \<times> (exn + response)" where
  "get_checked nt log u p t =
     (let rq = \<lparr>url = u, params = p, headers = session_headers session, timeout = t\<rparr>
      in (log @ [Get rq],
          case nt log rq of
            Raised m \<Rightarrow> Inl (RequestException m)
          | Returned r \<Rightarrow> raise_for_status r))"

section \<open>esearch_all_pmids\<close>

definition count_params :: "string \<Rightarrow> (string \<times> pval) list" where
  "count_params query =
     [(''db'', PStr ''pubmed''), (''retmode'', PStr ''json''), (''term'', PStr query),
      (''retmax'', PInt 0)]"

definition page_params :: "string \<Rightarrow> int \<Rightarrow> int \<Rightarrow> (string \<times> pval) list" where
  "page_params query chunk start =
     [(''db'', PStr ''pubmed''), (''retmode'', PStr ''json''), (''term'', PStr query),
      (''retmax'', PInt chunk), (''retstart'', PInt start)]"

text \<open>The body of \<open>for start in range(0, count, chunk)\<close>, over the remaining offsets.\<close>

fun fetch_pages ::
  "net \<Rightarrow> string \<Rightarrow> int \<Rightarrow> int list \<Rightarrow> event list \<Rightarrow> string list
    \<Rightarrow> event list \<times> (exn + string list)" where
  "fetch_pages nt query chunk [] log pmids = (log, Inr pmids)"
| "fetch_pages nt query chunk (start # rest) log pmids =
     (case get_checked nt log EUTILS (page_params query chunk start) 60 of
        (log1, Inl e) \<Rightarrow> (log1, Inl e)
      | (log1, Inr r) \<Rightarrow>
          (case esearchresult (body r) of
             None \<Rightarrow> (log1, Inl (KeyError ''esearchresult''))
           | Some er \<Rightarrow>
               fetch_pages nt query chunk rest (log1 @ [Sleep 340])
                 (pmids @ (case idlist er of None \<Rightarrow> [] | Some ids \<Rightarrow> ids))))"

definition esearch_all_pmids ::
  "(string list \<Rightarrow> string list) \<Rightarrow> net \<Rightarrow> string \<Rightarrow> int \<Rightarrow> event list
    \<Rightarrow> event list \<times> (exn + string list)" where
  "esearch_all_pmids it nt query chunk log =
     (case get_checked nt log EUTILS (count_params query) 60 of
        (log1, Inl e) \<Rightarrow> (log1, Inl e)
      | (log1, Inr r) \<Rightarrow>
          (case esearchresult (body r) of
             None \<Rightarrow> (log1, Inl (KeyError ''esearchresult''))
           | Some er \<Rightarrow>
               (case count er of
                  None \<Rightarrow> (log1, Inl (KeyError ''count''))
                | Some c \<Rightarrow>
                    (case py_int c of
                       None \<Rightarrow> (log1, Inl ValueError)
                     | Some n \<Rightarrow>
                         if chunk = 0 then (log1, Inl ValueError)
                         else
                           (case fetch_pages nt query chunk (py_range 0 n chunk) log1 [] of
                              (log2, Inl e) \<Rightarrow> (log2, Inl e)
                            | (log2, Inr pmids) \<Rightarrow>
                                (log2, py_sorted int_key (it pmids)))))))"

text \<open>The requests of the two kinds, as they appear in the log.\<close>

definition count_request :: "string \<Rightarrow> request" where
  "count_request query =
     \<lparr>url = EUTILS, params = count_params query, headers = session_headers session,
      timeout = 60\<rparr>"

definition page_request :: "string \<Rightarrow> int \<Rightarrow> int \<Rightarrow> request" where
  "page_request query chunk start =
     \<lparr>url = EUTILS, params = page_params query chunk start,
      headers = session_headers session, timeout = 60\<rparr>"

text \<open>The requests in a log, in the order they were issued.\<close>

fun requests_of :: "event list \<Rightarrow> request list" where
  "requests_of [] = []"
| "requests_of (Get rq # es) = rq # requests_of es"
| "requests_of (Sleep ms # es) = requests_of es"

text \<open>A count probe answered with a given total, and a page answered normally.\<close>

definition reports_count :: "outcome \<Rightarrow> int \<Rightarrow> bool" where
  "reports_count oc n =
     (case oc of
        Raised m \<Rightarrow> False
      | Returned r \<Rightarrow>
          \<not> (400 \<le> status r \<and> status r < 600) \<and>
          (case esearchresult (body r) of
             None \<Rightarrow> False
           | Some er \<Rightarrow> (case count er of None \<Rightarrow> False | Some c \<Rightarrow> py_int c = Some n)))"

definition page_ok :: "outcome \<Rightarrow> bool" where
  "page_ok oc =
     (case oc of
        Raised m \<Rightarrow> False
      | Returned r \<Rightarrow>
          \<not> (400 \<le> status r \<and> status r < 600) \<and> esearchresult (body r) \<noteq> None)"


section \<open>pubtator_has_concept\<close>

text \<open>\<open>for p in doc.get("passages", []): ann_count += len(p.get("annotations", []))\<close>\<close>

fun ann_count_loop :: "nat \<Rightarrow> passage list \<Rightarrow> nat" where
  "ann_count_loop ann_count [] = ann_count"
| "ann_count_loop ann_count (p # ps) =
     ann_count_loop
       (ann_count + length (case annotations p of None \<Rightarrow> [] | Some anns \<Rightarrow> anns)) ps"

text \<open>
  \<open>for doc in data.get("documents", [])\<close>: \<open>keep\<close> is the set under construction;
  \<open>doc.get("id")\<close> is \<open>None\<close> when the document has no id.
\<close>

fun scan_documents :: "string option list \<Rightarrow> document list \<Rightarrow> string option list" where
  "scan_documents keep [] = keep"
| "scan_documents keep (doc # docs) =
     (let ann_count =
            ann_count_loop 0 (case passages doc of None \<Rightarrow> [] | Some ps \<Rightarrow> ps)
      in scan_documents (if 0 < ann_count then keep @ [doc_id doc] else keep) docs)"

definition export_params :: "string list \<Rightarrow> string list \<Rightarrow> (string \<times> pval) list" where
  "export_params batch concepts =
     [(''pmids'', PStr (py_join '','' batch)), (''concepts'', PStr (py_join '','' concepts))]"

text \<open>The body of \<open>for i in range(0, len(pmids), page)\<close>, over the remaining offsets.\<close>

fun filter_batches ::
  "net \<Rightarrow> string list \<Rightarrow> string list \<Rightarrow> int \<Rightarrow> int list \<Rightarrow> event list \<Rightarrow> string option list
    \<Rightarrow> event list \<times> (exn + string option list)" where
  "filter_batches nt pmids concepts page [] log keep = (log, Inr keep)"
| "filter_batches nt pmids concepts page (i # rest) log keep =
     (let batch = py_slice pmids i (i + page)
      in case get_checked nt log PT_EXPORT (export_params batch concepts) 120 of
           (log1, Inl e) \<Rightarrow> (log1, Inl e)
         | (log1, Inr r) \<Rightarrow>
             filter_batches nt pmids concepts page rest (log1 @ [Sleep 500])
               (scan_documents keep
                  (case documents (body r) of None \<Rightarrow> [] | Some docs \<Rightarrow> docs)))"

definition pubtator_has_concept ::
  "net \<Rightarrow> string list \<Rightarrow> string list \<Rightarrow> int \<Rightarrow> event list
    \<Rightarrow> event list \<times> (exn + string option list)" where
  "pubtator_has_concept nt pmids concepts page log =
     (if page = 0 then (log, Inl ValueError)
      else filter_batches nt pmids concepts page (py_range 0 (int (length pmids)) page) log [])"

text \<open>
  The documents that a run of the filter reads from the responses, in order: an
  observation of the run, not part of the program.
\<close>

fun batch_documents ::
  "net \<Rightarrow> string list \<Rightarrow> string list \<Rightarrow> int \<Rightarrow> int list \<Rightarrow> event list \<Rightarrow> document list" where
  "batch_documents nt pmids concepts page [] log = []"
| "batch_documents nt pmids concepts page (i # rest) log =
     (case get_checked nt log PT_EXPORT (export_params (py_slice pmids i (i + page)) concepts) 120 of
        (log1, Inl e) \<Rightarrow> []
      | (log1, Inr r) \<Rightarrow>
          (case documents (body r) of None \<Rightarrow> [] | Some docs \<Rightarrow> docs) @
          batch_documents nt pmids concepts page rest (log1 @ [Sleep 500]))"

definition processed_documents ::
  "net \<Rightarrow> string list \<Rightarrow> string list \<Rightarrow> int \<Rightarrow> event list \<Rightarrow> document list" where
  "processed_documents nt pmids concepts page log =
     batch_documents nt pmids concepts page (py_range 0 (int (length pmids)) page) log"

text \<open>The total of a document in the words of the specification.\<close>

definition annotation_total :: "document \<Rightarrow> nat" where
  "annotation_total doc =
     sum_list (map (\<lambda>p. length (case annotations p of None \<Rightarrow> [] | Some anns \<Rightarrow> anns))
                   (case passages doc of None \<Rightarrow> [] | Some ps \<Rightarrow> ps))"

section \<open>main\<close>

record args =
  keyword :: string
  concepts :: string
  out :: string











section \<open>Observations on a run\<close>



text \<open>Two services that answer alike to every request of \<open>es\<close>, issued after \<open>pre\<close>.\<close>

fun same_answers :: "net \<Rightarrow> net \<Rightarrow> event list \<Rightarrow> event list \<Rightarrow> bool" where
  "same_answers nt1 nt2 pre [] = True"
| "same_answers nt1 nt2 pre (Get rq # es) =
     (nt1 pre rq = nt2 pre rq \<and> same_answers nt1 nt2 (pre @ [Get rq]) es)"
| "same_answers nt1 nt2 pre (Sleep ms # es) = same_answers nt1 nt2 (pre @ [Sleep ms]) es"

section \<open>Concrete services for the examples\<close>

definition always :: "response \<Rightarrow> net" where
  "always r = (\<lambda>log rq. Returned r)"

definition ok_response :: "json \<Rightarrow> response" where
  "ok_response j = \<lparr>status = 200, error_text = [], body = j\<rparr>"

definition esearch_json :: "string \<Rightarrow> string list \<Rightarrow> json" where
  "esearch_json c ids =
     \<lparr>esearchresult = Some \<lparr>count = Some c, idlist = Some ids\<rparr>, documents = None\<rparr>"

definition export_json :: "document list \<Rightarrow> json" where
  "export_json docs = \<lparr>esearchresult = None, documents = Some docs\<rparr>"

definition annotated_doc :: "string \<Rightarrow> nat \<Rightarrow> document" where
  "annotated_doc i n =
     \<lparr>doc_id = Some i,
      passages = Some [\<lparr>annotations = Some (replicate n (Annotation ''Disease''))\<rparr>]\<rparr>"

definition export_request :: "string list \<Rightarrow> string list \<Rightarrow> request" where
  "export_request batch cs =
     \<lparr>url = PT_EXPORT, params = export_params batch cs, headers = session_headers session,
      timeout = 120\<rparr>"

text \<open>An annotation service that answers with a document nobody asked for.\<close>

definition foreign_service :: net where
  "foreign_service = always (ok_response (export_json [annotated_doc ''999'' 1]))"

text \<open>One document with two annotations, one with none.\<close>

definition two_docs_service :: net where
  "two_docs_service =
     always (ok_response (export_json [annotated_doc ''1'' 2, annotated_doc ''2'' 0]))"

text \<open>The same identifier twice, once annotated and once not.\<close>

definition duplicate_id_service :: net where
  "duplicate_id_service =
     always (ok_response (export_json [annotated_doc ''1'' 1, annotated_doc ''1'' 0]))"

text \<open>A search service whose identifier list holds two numerals of the same number.\<close>

definition leading_zero_service :: net where
  "leading_zero_service = always (ok_response (esearch_json ''2'' [''7'', ''07'']))"

definition numeric_order_service :: net where
  "numeric_order_service = always (ok_response (esearch_json ''3'' [''10'', ''9'', ''10'']))"

text \<open>
  The value of a key that did not raise; used to state what \<open>py_sorted\<close> sorts by.
\<close>

definition key_val :: "('a \<Rightarrow> exn + int) \<Rightarrow> 'a \<Rightarrow> int" where
  "key_val k x = (case k x of Inl e \<Rightarrow> 0 | Inr n \<Rightarrow> n)"

text \<open>
  A second order in which a set of strings may be iterated, and a service that answers
  the search endpoint like \<open>numeric_order_service\<close> and nothing else.
\<close>

definition other_order :: "string list \<Rightarrow> string list" where
  "other_order xs = rev (remdups xs)"

definition eutils_only_service :: net where
  "eutils_only_service =
     (\<lambda>log rq. if url rq = EUTILS
                then Returned (ok_response (esearch_json ''3'' [''10'', ''9'', ''10'']))
                else Raised ''unreachable'')"




section \<open>Facts about the primitives\<close>

lemma set_iteration_Nil: "set_iteration it \<Longrightarrow> it [] = []"
  unfolding set_iteration_def by (metis set_empty)

lemma set_iteration_remdups: "set_iteration remdups"
  by (simp add: set_iteration_def)

lemma py_sorted_Nil: "py_sorted k [] = Inr []"
  by (simp add: py_sorted_def)

lemma range_zero: "py_range 0 0 step = []"
  by (simp add: py_range_def range_len_def)

lemma range_25000: "py_range 0 25000 10000 = [0, 10000, 20000]"
  by (simp add: py_range_def range_len_def upt_rec)

lemma py_int_0: "py_int ''0'' = Some 0"
  by (simp add: py_int_def int_isspace_def unsigned_val_def digit_val_def)

lemma py_int_25000: "py_int ''25000'' = Some 25000"
  by (simp add: py_int_def int_isspace_def unsigned_val_def digit_val_def)

lemma requests_of_append: "requests_of (xs @ ys) = requests_of xs @ requests_of ys"
  by (induction xs rule: requests_of.induct) simp_all

section \<open>The requests of the collector\<close>

lemma get_checked_ok:
  "nt log \<lparr>url = u, params = p, headers = session_headers session, timeout = t\<rparr> = Returned r
   \<Longrightarrow> \<not> (400 \<le> status r \<and> status r < 600)
   \<Longrightarrow> get_checked nt log u p t =
        (log @ [Get \<lparr>url = u, params = p, headers = session_headers session, timeout = t\<rparr>], Inr r)"
  by (simp add: get_checked_def raise_for_status_def Let_def)

lemma count_probe_ok:
  assumes "reports_count (nt log (count_request query)) n"
  obtains r er c where
    "get_checked nt log EUTILS (count_params query) 60 = (log @ [Get (count_request query)], Inr r)"
    "esearchresult (body r) = Some er" "count er = Some c" "py_int c = Some n"
proof -
  from assms obtain r er c where
    r: "nt log (count_request query) = Returned r" "\<not> (400 \<le> status r \<and> status r < 600)"
      "esearchresult (body r) = Some er" "count er = Some c" "py_int c = Some n"
    by (auto simp: reports_count_def split: outcome.splits option.splits)
  have "get_checked nt log EUTILS (count_params query) 60 = (log @ [Get (count_request query)], Inr r)"
    using get_checked_ok[of nt log EUTILS "count_params query" 60 r] r(1,2)
    by (simp add: count_request_def)
  with r(3,4,5) that show thesis by blast
qed

lemma fetch_pages_requests:
  assumes "\<forall>l s. page_ok (nt l (page_request query chunk s))"
  shows "requests_of (fst (fetch_pages nt query chunk starts log pmids)) =
           requests_of log @ map (page_request query chunk) starts
         \<and> (\<exists>ps. snd (fetch_pages nt query chunk starts log pmids) = Inr ps)"
proof (induction starts arbitrary: log pmids)
  case Nil
  show ?case by simp
next
  case (Cons s rest)
  from assms have "page_ok (nt log (page_request query chunk s))" by blast
  then obtain r er where
    r: "nt log (page_request query chunk s) = Returned r"
       "\<not> (400 \<le> status r \<and> status r < 600)" "esearchresult (body r) = Some er"
    by (auto simp: page_ok_def split: outcome.splits)
  have g: "get_checked nt log EUTILS (page_params query chunk s) 60 =
             (log @ [Get (page_request query chunk s)], Inr r)"
    using get_checked_ok[of nt log EUTILS "page_params query chunk s" 60 r] r(1,2)
    by (simp add: page_request_def)
  show ?case
    using Cons.IH[of "log @ [Get (page_request query chunk s), Sleep 340]"]
    by (simp add: g r(3) requests_of_append)
qed

lemma esearch_requests:
  assumes "chunk \<noteq> 0"
    and "reports_count (nt log (count_request query)) n"
    and "\<forall>l s. page_ok (nt l (page_request query chunk s))"
  shows "requests_of (fst (esearch_all_pmids it nt query chunk log)) =
           requests_of log @ count_request query # map (page_request query chunk) (py_range 0 n chunk)"
proof -
  from assms(2) obtain r er c where
    g: "get_checked nt log EUTILS (count_params query) 60 = (log @ [Get (count_request query)], Inr r)"
    and r: "esearchresult (body r) = Some er" "count er = Some c" "py_int c = Some n"
    by (rule count_probe_ok)
  let ?F = "fetch_pages nt query chunk (py_range 0 n chunk) (log @ [Get (count_request query)]) []"
  from fetch_pages_requests[OF assms(3)]
  have f: "requests_of (fst ?F) =
             requests_of (log @ [Get (count_request query)]) @ map (page_request query chunk) (py_range 0 n chunk)"
    and "\<exists>ps. snd ?F = Inr ps"
    by blast+
  then obtain l2 ps where F: "?F = (l2, Inr ps)" by (metis prod.collapse)
  have "esearch_all_pmids it nt query chunk log = (l2, py_sorted int_key (it ps))"
    using assms(1) r by (simp add: esearch_all_pmids_def g F)
  then show ?thesis using f F by (simp add: requests_of_append)
qed

text \<open>
  Claim C5. When the count probe reports a total of 0, the collector returns the empty
  sequence, and the count probe is the only request it issues: the log grows by that one
  request. The chunk size is any integer other than 0, for which \<open>range\<close> raises.
\<close>

theorem esearch_count_zero:
  assumes "set_iteration it" and "chunk \<noteq> 0"
    and "reports_count (nt log (count_request query)) 0"
  shows "esearch_all_pmids it nt query chunk log = (log @ [Get (count_request query)], Inr [])"
proof -
  from assms(3) obtain r er c where
    g: "get_checked nt log EUTILS (count_params query) 60 = (log @ [Get (count_request query)], Inr r)"
    and r: "esearchresult (body r) = Some er" "count er = Some c" "py_int c = Some 0"
    by (rule count_probe_ok)
  show ?thesis
    using assms(2) r
    by (simp add: esearch_all_pmids_def g range_zero set_iteration_Nil[OF assms(1)] py_sorted_Nil)
qed

theorem esearch_count_zero_witness:
  "set_iteration (remdups :: string list \<Rightarrow> string list) \<and> (10000 :: int) \<noteq> 0 \<and>
   reports_count (always (ok_response (esearch_json ''0'' [])) [] (count_request ''alkaptonuria'')) 0 \<and>
   esearch_all_pmids remdups (always (ok_response (esearch_json ''0'' []))) ''alkaptonuria'' 10000 [] =
     ([Get (count_request ''alkaptonuria'')], Inr [])"
proof -
  have h: "reports_count (always (ok_response (esearch_json ''0'' [])) [] (count_request ''alkaptonuria'')) 0"
    by (simp add: reports_count_def always_def ok_response_def esearch_json_def py_int_0)
  have s: "set_iteration (remdups :: string list \<Rightarrow> string list)"
    by (rule set_iteration_remdups)
  show ?thesis
    using esearch_count_zero[of remdups 10000 "always (ok_response (esearch_json ''0'' []))" "[]"
        "''alkaptonuria''"] h s
    by simp
qed

text \<open>
  Claim C4. When the count probe reports 25000 and the chunk size is 10000, and no page
  request fails, the collector issues the count probe and then exactly three page
  requests, with \<open>retstart\<close> 0, 10000 and 20000 in that order, each with \<open>retmax\<close> 10000.
\<close>

theorem esearch_pagination_25000:
  assumes "reports_count (nt log (count_request query)) 25000"
    and "\<forall>l s. page_ok (nt l (page_request query 10000 s))"
  shows "requests_of (fst (esearch_all_pmids it nt query 10000 log)) =
           requests_of log @
           [count_request query, page_request query 10000 0, page_request query 10000 10000,
            page_request query 10000 20000]
         \<and> map (\<lambda>s. (map_of (params (page_request query 10000 s)) ''retstart'',
                      map_of (params (page_request query 10000 s)) ''retmax''))
             [0, 10000, 20000] =
           [(Some (PInt 0), Some (PInt 10000)), (Some (PInt 10000), Some (PInt 10000)),
            (Some (PInt 20000), Some (PInt 10000))]"
proof -
  have "requests_of (fst (esearch_all_pmids it nt query 10000 log)) =
          requests_of log @ count_request query # map (page_request query 10000) (py_range 0 25000 10000)"
    using assms by (intro esearch_requests) simp_all
  then show ?thesis
    by (simp add: range_25000 page_request_def page_params_def)
qed

theorem esearch_pagination_25000_witness:
  "reports_count (always (ok_response (esearch_json ''25000'' [''31''])) [] (count_request ''gene'')) 25000 \<and>
   (\<forall>l s. page_ok (always (ok_response (esearch_json ''25000'' [''31''])) l (page_request ''gene'' 10000 s))) \<and>
   requests_of (fst (esearch_all_pmids remdups (always (ok_response (esearch_json ''25000'' [''31'']))) ''gene'' 10000 [])) =
     [count_request ''gene'', page_request ''gene'' 10000 0, page_request ''gene'' 10000 10000,
      page_request ''gene'' 10000 20000]"
proof -
  have h1: "reports_count (always (ok_response (esearch_json ''25000'' [''31''])) [] (count_request ''gene'')) 25000"
    by (simp add: reports_count_def always_def ok_response_def esearch_json_def py_int_25000)
  have h2: "\<forall>l s. page_ok (always (ok_response (esearch_json ''25000'' [''31''])) l (page_request ''gene'' 10000 s))"
    by (simp add: page_ok_def always_def ok_response_def esearch_json_def)
  show ?thesis
    using esearch_pagination_25000[OF h1 h2, of remdups] h1 h2 by simp
qed

section \<open>The result of the filter\<close>

lemma ann_count_loop_sum:
  "ann_count_loop n ps =
     n + sum_list (map (\<lambda>p. length (case annotations p of None \<Rightarrow> [] | Some anns \<Rightarrow> anns)) ps)"
  by (induction ps arbitrary: n) simp_all

lemma ann_count_total:
  "ann_count_loop 0 (case passages d of None \<Rightarrow> [] | Some ps \<Rightarrow> ps) = annotation_total d"
  by (simp add: ann_count_loop_sum annotation_total_def)

lemma scan_documents_set:
  "set (scan_documents keep docs) =
     set keep \<union> doc_id ` {d \<in> set docs. 0 < annotation_total d}"
proof (induction docs arbitrary: keep)
  case Nil
  show ?case by simp
next
  case (Cons d docs)
  show ?case
  proof (cases "0 < annotation_total d")
    case True
    then have "set (scan_documents keep (d # docs)) = set (scan_documents (keep @ [doc_id d]) docs)"
      by (simp add: ann_count_total)
    also have "\<dots> = set (keep @ [doc_id d]) \<union> doc_id ` {x \<in> set docs. 0 < annotation_total x}"
      by (rule Cons.IH)
    finally show ?thesis using True by auto
  next
    case False
    then have "set (scan_documents keep (d # docs)) = set (scan_documents keep docs)"
      by (simp add: ann_count_total)
    also have "\<dots> = set keep \<union> doc_id ` {x \<in> set docs. 0 < annotation_total x}"
      by (rule Cons.IH)
    finally show ?thesis using False by auto
  qed
qed

lemma filter_batches_set:
  "filter_batches nt pmids cs page starts log keep = (log', Inr kept) \<Longrightarrow>
   set kept =
     set keep \<union> doc_id ` {d \<in> set (batch_documents nt pmids cs page starts log). 0 < annotation_total d}"
proof (induction starts arbitrary: log keep)
  case Nil
  then show ?case by simp
next
  case (Cons i rest)
  obtain log1 res where g:
    "get_checked nt log PT_EXPORT (export_params (py_slice pmids i (i + page)) cs) 120 = (log1, res)"
    by (cases "get_checked nt log PT_EXPORT (export_params (py_slice pmids i (i + page)) cs) 120")
  show ?case
  proof (cases res)
    case (Inl e)
    with Cons.prems g show ?thesis by (simp add: Let_def)
  next
    case (Inr r)
    let ?docs = "case documents (body r) of None \<Rightarrow> [] | Some docs \<Rightarrow> docs"
    from Cons.prems g Inr have
      "filter_batches nt pmids cs page rest (log1 @ [Sleep 500]) (scan_documents keep ?docs) = (log', Inr kept)"
      by (simp add: Let_def)
    from Cons.IH[OF this] show ?thesis
      using g Inr by (auto simp: scan_documents_set)
  qed
qed

lemma pubtator_result_set:
  assumes "pubtator_has_concept nt pmids cs page log = (log', Inr kept)"
  shows "set kept =
           doc_id ` {d \<in> set (processed_documents nt pmids cs page log). 0 < annotation_total d}"
proof -
  from assms have "page \<noteq> 0"
    by (auto simp: pubtator_has_concept_def split: if_splits)
  with assms have
    "filter_batches nt pmids cs page (py_range 0 (int (length pmids)) page) log [] = (log', Inr kept)"
    by (simp add: pubtator_has_concept_def)
  from filter_batches_set[OF this] show ?thesis
    by (simp add: processed_documents_def)
qed

text \<open>Runs of the filter against the example services.\<close>

lemma range_one_batch: "py_range 0 1 1000 = [0]" "py_range 0 2 1000 = [0]"
  by (simp_all add: py_range_def range_len_def)

lemmas run_simps =
  pubtator_has_concept_def processed_documents_def range_one_batch get_checked_def always_def
  ok_response_def export_json_def annotated_doc_def raise_for_status_def Let_def
  py_slice_def slice_bound_def export_request_def

lemma run_foreign:
  "pubtator_has_concept foreign_service [''1''] [''disease''] 1000 [] =
   ([Get (export_request [''1''] [''disease'']), Sleep 500], Inr [Some ''999''])"
  by (simp add: foreign_service_def run_simps)

lemma run_two_docs:
  "pubtator_has_concept two_docs_service [''1'', ''2''] [''disease''] 1000 [] =
   ([Get (export_request [''1'', ''2''] [''disease'']), Sleep 500], Inr [Some ''1''])"
  by (simp add: two_docs_service_def run_simps)

lemma docs_two_docs:
  "processed_documents two_docs_service [''1'', ''2''] [''disease''] 1000 [] =
   [annotated_doc ''1'' 2, annotated_doc ''2'' 0]"
  by (simp add: two_docs_service_def run_simps)

lemma run_duplicate_id:
  "pubtator_has_concept duplicate_id_service [''1''] [''disease''] 1000 [] =
   ([Get (export_request [''1''] [''disease'']), Sleep 500], Inr [Some ''1''])"
  by (simp add: duplicate_id_service_def run_simps)

lemma docs_duplicate_id:
  "processed_documents duplicate_id_service [''1''] [''disease''] 1000 [] =
   [annotated_doc ''1'' 1, annotated_doc ''1'' 0]"
  by (simp add: duplicate_id_service_def run_simps)

lemma annotated_doc_facts:
  "annotation_total (annotated_doc i n) = n" "doc_id (annotated_doc i n) = Some i"
  by (simp_all add: annotation_total_def annotated_doc_def)

text \<open>
  Claim C1. The docstring of the filter promises a subset of the PMIDs it is given, and
  \<open>main\<close> calls the result \<open>subset\<close>; the loop adds the identifier the service reports
  for a document and never compares it with the identifiers it asked for. Asked about
  PMID 1, a service that answers with an annotated document 999 makes the filter return
  999, which is not among the PMIDs given.
\<close>

theorem filter_foreign_identifier:
  "pubtator_has_concept foreign_service [''1''] [''disease''] 1000 [] =
     ([Get (export_request [''1''] [''disease'']), Sleep 500], Inr [Some ''999'']) \<and>
   \<not> set [Some ''999''] \<subseteq> Some ` set [''1'']"
  by (simp add: run_foreign)

text \<open>
  Claim C3, as stated, fails where two documents of the responses carry the same
  identifier: the second document below has no annotation, and its identifier is in the
  result, put there by the first.
\<close>

theorem filter_inclusion_counterexample:
  "snd (pubtator_has_concept duplicate_id_service [''1''] [''disease''] 1000 []) = Inr [Some ''1''] \<and>
   processed_documents duplicate_id_service [''1''] [''disease''] 1000 [] =
     [annotated_doc ''1'' 1, annotated_doc ''1'' 0] \<and>
   annotation_total (annotated_doc ''1'' 0) = 0 \<and>
   doc_id (annotated_doc ''1'' 0) \<in> set [Some ''1'']"
  by (simp add: run_duplicate_id docs_duplicate_id annotated_doc_facts)

text \<open>
  Claim C3, amended. For every document the filter processes: if the sum of the lengths
  of the annotation arrays over its passages is positive, its identifier is in the
  result; and its identifier is in the result iff some processed document with that
  identifier has a positive sum. Every member of the result is the identifier of a
  processed document with a positive sum, so a document without annotations adds nothing.
\<close>

theorem filter_inclusion:
  assumes "pubtator_has_concept nt pmids cs page log = (log', Inr kept)"
  shows "(\<forall>d \<in> set (processed_documents nt pmids cs page log).
            (0 < annotation_total d \<longrightarrow> doc_id d \<in> set kept) \<and>
            (doc_id d \<in> set kept \<longleftrightarrow>
               (\<exists>d' \<in> set (processed_documents nt pmids cs page log).
                  doc_id d' = doc_id d \<and> 0 < annotation_total d'))) \<and>
         (\<forall>x \<in> set kept.
            \<exists>d \<in> set (processed_documents nt pmids cs page log).
              doc_id d = x \<and> 0 < annotation_total d)"
  using pubtator_result_set[OF assms] by (auto simp: image_iff)

theorem filter_inclusion_witness:
  "pubtator_has_concept two_docs_service [''1'', ''2''] [''disease''] 1000 [] =
     ([Get (export_request [''1'', ''2''] [''disease'']), Sleep 500], Inr [Some ''1'']) \<and>
   processed_documents two_docs_service [''1'', ''2''] [''disease''] 1000 [] =
     [annotated_doc ''1'' 2, annotated_doc ''2'' 0] \<and>
   annotation_total (annotated_doc ''1'' 2) = 2 \<and>
   doc_id (annotated_doc ''1'' 2) \<in> set [Some ''1''] \<and>
   annotation_total (annotated_doc ''2'' 0) = 0 \<and>
   doc_id (annotated_doc ''2'' 0) \<notin> set [Some ''1'']"
  using filter_inclusion[OF run_two_docs]
  by (simp add: run_two_docs docs_two_docs annotated_doc_facts)

text \<open>
  Claim C10. For the empty input list the filter issues no request (the log is
  unchanged) and returns the empty set, whatever the concepts; the page size is any
  integer other than 0, for which \<open>range\<close> raises.
\<close>

theorem filter_empty_input:
  "page \<noteq> 0 \<Longrightarrow> pubtator_has_concept nt [] cs page log = (log, Inr [])"
  by (simp add: pubtator_has_concept_def range_zero)

theorem filter_empty_input_witness:
  "(1000 :: int) \<noteq> 0 \<and>
   pubtator_has_concept two_docs_service [] [''disease''] 1000 [] = ([], Inr [])"
  using filter_empty_input[of 1000 two_docs_service "[''disease'']" "[]"] by simp

section \<open>Sorting by numeric value\<close>

lemma py_keys_Inr:
  "py_keys k xs = Inr ns \<Longrightarrow> ns = map (key_val k) xs \<and> (\<forall>x \<in> set xs. k x = Inr (key_val k x))"
  by (induction xs arbitrary: ns) (auto simp: key_val_def split: sum.splits)

lemma insort_key_map:
  "insort_key f (g x) (map g ys) = map g (insort_key (\<lambda>y. f (g y)) x ys)"
  by (induction ys) simp_all

lemma sort_key_map: "sort_key f (map g xs) = map g (sort_key (\<lambda>y. f (g y)) xs)"
  by (induction xs) (simp_all add: insort_key_map)

lemma sort_decorated:
  "map snd (sort_key fst (zip (map f xs) xs)) = sort_key f xs"
proof -
  have "zip (map f xs) xs = map (\<lambda>x. (f x, x)) xs"
    by (induction xs) simp_all
  then show ?thesis
    by (simp add: sort_key_map comp_def)
qed

lemma py_sorted_Inr:
  assumes "py_sorted k xs = Inr ys"
  shows "ys = sort_key (key_val k) xs" and "\<forall>x \<in> set xs. k x = Inr (key_val k x)"
proof -
  from assms obtain ns where ns: "py_keys k xs = Inr ns" "ys = map snd (sort_key fst (zip ns xs))"
    by (auto simp: py_sorted_def split: sum.splits)
  from py_keys_Inr[OF ns(1)] have n: "ns = map (key_val k) xs"
    and a: "\<forall>x \<in> set xs. k x = Inr (key_val k x)" by blast+
  from ns(2) n show "ys = sort_key (key_val k) xs" by (simp add: sort_decorated)
  from a show "\<forall>x \<in> set xs. k x = Inr (key_val k x)" .
qed

lemma esearch_result_sorted:
  assumes "esearch_all_pmids it nt query chunk log = (log', Inr ys)"
  obtains pmids where "py_sorted int_key (it pmids) = Inr ys"
  using assms
  by (auto simp: esearch_all_pmids_def split: prod.splits sum.splits option.splits if_splits)

lemma py_int_digits:
  "py_int ''2'' = Some 2" "py_int ''3'' = Some 3" "py_int ''7'' = Some 7" "py_int ''07'' = Some 7"
  "py_int ''9'' = Some 9" "py_int ''10'' = Some 10"
  by (simp_all add: py_int_def int_isspace_def unsigned_val_def digit_val_def)

lemma range_one_page: "py_range 0 2 10000 = [0]" "py_range 0 3 10000 = [0]"
  by (simp_all add: py_range_def range_len_def)

lemmas collect_simps =
  esearch_all_pmids_def get_checked_def always_def ok_response_def esearch_json_def
  raise_for_status_def Let_def py_int_digits range_one_page py_sorted_def int_key_def
  count_request_def page_request_def

lemma run_leading_zero:
  "esearch_all_pmids remdups leading_zero_service ''x'' 10000 [] =
     ([Get (count_request ''x''), Get (page_request ''x'' 10000 0), Sleep 340],
      Inr [''7'', ''07''])"
  by (simp add: leading_zero_service_def collect_simps)

lemma run_numeric_order:
  "esearch_all_pmids remdups numeric_order_service ''x'' 10000 [] =
     ([Get (count_request ''x''), Get (page_request ''x'' 10000 0), Sleep 340],
      Inr [''9'', ''10''])"
  by (simp add: numeric_order_service_def collect_simps)

text \<open>
  Claim C2, as stated, fails: the collector compares the identifiers as strings when it
  removes duplicates and as numbers when it sorts, so two numerals of the same number
  both stay in the result, with equal keys. The service below lists \<open>7\<close> and \<open>07\<close>.
\<close>

theorem esearch_strictly_ascending_counterexample:
  "snd (esearch_all_pmids remdups leading_zero_service ''x'' 10000 []) = Inr [''7'', ''07''] \<and>
   map py_int [''7'', ''07''] = [Some 7, Some 7] \<and>
   \<not> sorted_wrt (<) [7, 7 :: int]"
  by (simp add: run_leading_zero py_int_digits)

text \<open>
  Claim C2, amended. Every sequence the collector returns has no duplicate strings, every
  member is a numeral, and the sequence is ascending by numeric value; it is strictly
  ascending whenever distinct members have distinct numeric values.
\<close>

theorem esearch_unique_ascending:
  assumes "set_iteration it"
    and "esearch_all_pmids it nt query chunk log = (log', Inr ys)"
  shows "distinct ys \<and>
         (\<exists>ns. map py_int ys = map Some ns \<and> sorted ns \<and>
               (inj_on py_int (set ys) \<longrightarrow> sorted_wrt (<) ns))"
proof -
  from assms(2) obtain pmids where s: "py_sorted int_key (it pmids) = Inr ys"
    by (rule esearch_result_sorted)
  let ?v = "key_val int_key"
  from py_sorted_Inr[OF s] have ys: "ys = sort_key ?v (it pmids)"
    and k: "\<forall>x \<in> set (it pmids). int_key x = Inr (?v x)" by blast+
  from assms(1) have d: "distinct (it pmids)" by (simp add: set_iteration_def)
  from ys d have dist: "distinct ys" by simp
  have v: "\<forall>x \<in> set ys. py_int x = Some (?v x)"
  proof
    fix x assume "x \<in> set ys"
    with ys have "x \<in> set (it pmids)" by simp
    with k have "int_key x = Inr (?v x)" by blast
    then show "py_int x = Some (?v x)"
      by (simp add: int_key_def split: option.splits)
  qed
  then have m: "map py_int ys = map Some (map ?v ys)" by simp
  have so: "sorted (map ?v ys)" unfolding ys by (rule sorted_sort_key)
  have st: "sorted_wrt (<) (map ?v ys)" if i: "inj_on py_int (set ys)"
  proof -
    have "inj_on ?v (set ys)"
    proof (rule inj_onI)
      fix x y assume "x \<in> set ys" "y \<in> set ys" "?v x = ?v y"
      with v have "py_int x = py_int y" by simp
      with i \<open>x \<in> set ys\<close> \<open>y \<in> set ys\<close> show "x = y" by (simp add: inj_on_def)
    qed
    with dist have "distinct (map ?v ys)" by (simp add: distinct_map)
    with so show ?thesis by (simp add: strict_sorted_iff)
  qed
  from dist m so st show ?thesis by blast
qed

theorem esearch_unique_ascending_witness:
  "set_iteration (remdups :: string list \<Rightarrow> string list) \<and>
   esearch_all_pmids remdups numeric_order_service ''x'' 10000 [] =
     ([Get (count_request ''x''), Get (page_request ''x'' 10000 0), Sleep 340],
      Inr [''9'', ''10'']) \<and>
   inj_on py_int (set [''9'', ''10'']) \<and>
   distinct [''9'', ''10''] \<and>
   map py_int [''9'', ''10''] = map Some [9, 10] \<and>
   sorted_wrt (<) [9, 10 :: int]"
proof -
  have s: "set_iteration (remdups :: string list \<Rightarrow> string list)"
    by (rule set_iteration_remdups)
  show ?thesis
    using esearch_unique_ascending[OF s run_numeric_order] s
    by (simp add: run_numeric_order py_int_digits)
qed

section \<open>Dependence on the answers only\<close>

lemma set_iteration_other_order: "set_iteration other_order"
  by (simp add: set_iteration_def other_order_def)

lemma py_keys_ok:
  "\<forall>x \<in> set xs. k x = Inr (key_val k x) \<Longrightarrow> py_keys k xs = Inr (map (key_val k) xs)"
  by (induction xs) simp_all

lemma py_sorted_ok:
  assumes "\<forall>x \<in> set xs. k x = Inr (key_val k x)"
  shows "py_sorted k xs = Inr (sort_key (key_val k) xs)"
  using py_keys_ok[OF assms] by (simp add: py_sorted_def sort_decorated)

lemma sort_key_order_irrelevant:
  assumes "distinct xs" and "distinct ys" and "set xs = set ys" and "inj_on f (set xs)"
  shows "sort_key f xs = sort_key f ys"
proof -
  have dx: "distinct (map f (sort_key f xs))"
    using assms(1,4) by (simp add: distinct_map)
  have dy: "distinct (map f (sort_key f ys))"
    using assms(2,3,4) by (simp add: distinct_map)
  have "set (map f (sort_key f xs)) = set (map f (sort_key f ys))"
    using assms(3) by simp
  with dx dy have "map f (sort_key f xs) = map f (sort_key f ys)"
    by (intro sorted_distinct_set_unique) (simp_all del: set_map)
  moreover have "inj_on f (set (sort_key f xs) \<union> set (sort_key f ys))"
    using assms(3,4) by simp
  ultimately show ?thesis
    by (simp add: inj_on_map_eq_map)
qed

lemma py_sorted_order_irrelevant:
  assumes "set_iteration it1" and "set_iteration it2"
    and "py_sorted int_key (it1 pmids) = Inr ys"
    and "inj_on py_int (set ys)"
  shows "py_sorted int_key (it2 pmids) = Inr ys"
proof -
  let ?v = "key_val int_key"
  from py_sorted_Inr[OF assms(3)] have ys: "ys = sort_key ?v (it1 pmids)"
    and k: "\<forall>x \<in> set (it1 pmids). int_key x = Inr (?v x)" by blast+
  from assms(1,2) have d: "distinct (it1 pmids)" "distinct (it2 pmids)"
    and s: "set (it1 pmids) = set (it2 pmids)"
    by (simp_all add: set_iteration_def)
  have "inj_on ?v (set (it1 pmids))"
  proof (rule inj_onI)
    fix x y assume x: "x \<in> set (it1 pmids)" and y: "y \<in> set (it1 pmids)" and e: "?v x = ?v y"
    from k x y have "int_key x = Inr (?v x)" "int_key y = Inr (?v y)" by blast+
    then have "py_int x = Some (?v x)" "py_int y = Some (?v y)"
      by (simp_all add: int_key_def split: option.splits)
    with e have "py_int x = py_int y" by simp
    moreover from x y ys have "x \<in> set ys" "y \<in> set ys" by simp_all
    ultimately show "x = y" using assms(4) by (simp add: inj_on_def)
  qed
  with d s have "sort_key ?v (it1 pmids) = sort_key ?v (it2 pmids)"
    by (rule sort_key_order_irrelevant)
  moreover from k s have "py_sorted int_key (it2 pmids) = Inr (sort_key ?v (it2 pmids))"
    by (intro py_sorted_ok) simp
  ultimately show ?thesis using ys by simp
qed

lemma get_checked_log:
  "fst (get_checked nt log u p t) =
     log @ [Get \<lparr>url = u, params = p, headers = session_headers session, timeout = t\<rparr>]"
  by (simp add: get_checked_def Let_def)

lemma get_checked_same:
  "nt1 log \<lparr>url = u, params = p, headers = session_headers session, timeout = t\<rparr> =
   nt2 log \<lparr>url = u, params = p, headers = session_headers session, timeout = t\<rparr>
   \<Longrightarrow> get_checked nt2 log u p t = get_checked nt1 log u p t"
  by (simp add: get_checked_def Let_def)

lemma get_checked_pair:
  "get_checked nt log u p t =
     (log @ [Get \<lparr>url = u, params = p, headers = session_headers session, timeout = t\<rparr>],
      snd (get_checked nt log u p t))"
  by (simp add: get_checked_def Let_def)

lemma fetch_pages_extends:
  "\<exists>new. fst (fetch_pages nt query chunk starts log pmids) = log @ new"
proof (induction starts arbitrary: log pmids)
  case Nil
  show ?case by simp
next
  case (Cons s rest)
  let ?rq = "\<lparr>url = EUTILS, params = page_params query chunk s,
              headers = session_headers session, timeout = 60\<rparr>"
  obtain x where g: "get_checked nt log EUTILS (page_params query chunk s) 60 = (log @ [Get ?rq], x)"
    using get_checked_pair by blast
  show ?case
  proof (cases x)
    case (Inl e)
    with g show ?thesis by simp
  next
    case (Inr r)
    show ?thesis
    proof (cases "esearchresult (body r)")
      case None
      with g Inr show ?thesis by simp
    next
      case (Some er)
      from Cons.IH[of "(log @ [Get ?rq]) @ [Sleep 340]"
                      "pmids @ (case idlist er of None \<Rightarrow> [] | Some ids \<Rightarrow> ids)"]
      obtain new where
        "fst (fetch_pages nt query chunk rest ((log @ [Get ?rq]) @ [Sleep 340])
               (pmids @ (case idlist er of None \<Rightarrow> [] | Some ids \<Rightarrow> ids)))
         = ((log @ [Get ?rq]) @ [Sleep 340]) @ new" by blast
      with g Inr Some show ?thesis by simp
    qed
  qed
qed

lemma fetch_pages_same:
  "fst (fetch_pages nt1 query chunk starts log pmids) = log @ new
   \<Longrightarrow> same_answers nt1 nt2 log new
   \<Longrightarrow> fetch_pages nt2 query chunk starts log pmids = fetch_pages nt1 query chunk starts log pmids"
proof (induction starts arbitrary: log pmids new)
  case Nil
  show ?case by simp
next
  case (Cons s rest)
  let ?rq = "\<lparr>url = EUTILS, params = page_params query chunk s,
              headers = session_headers session, timeout = 60\<rparr>"
  obtain x where g: "get_checked nt1 log EUTILS (page_params query chunk s) 60 = (log @ [Get ?rq], x)"
    using get_checked_pair by blast
  have first: "nt1 log ?rq = nt2 log ?rq" if "new = Get ?rq # rest'" for rest'
    using Cons.prems(2) that by simp
  show ?case
  proof (cases x)
    case (Inl e)
    with g Cons.prems(1) have "new = [Get ?rq]" by simp
    from first[OF this] have "get_checked nt2 log EUTILS (page_params query chunk s) 60 =
        get_checked nt1 log EUTILS (page_params query chunk s) 60"
      by (rule get_checked_same)
    with g Inl show ?thesis by simp
  next
    case (Inr r)
    show ?thesis
    proof (cases "esearchresult (body r)")
      case None
      with g Inr Cons.prems(1) have "new = [Get ?rq]" by simp
      from first[OF this] have "get_checked nt2 log EUTILS (page_params query chunk s) 60 =
          get_checked nt1 log EUTILS (page_params query chunk s) 60"
        by (rule get_checked_same)
      with g Inr None show ?thesis by simp
    next
      case (Some er)
      let ?log = "(log @ [Get ?rq]) @ [Sleep 340]"
      let ?pm = "pmids @ (case idlist er of None \<Rightarrow> [] | Some ids \<Rightarrow> ids)"
      obtain new' where n': "fst (fetch_pages nt1 query chunk rest ?log ?pm) = ?log @ new'"
        using fetch_pages_extends by blast
      with g Inr Some Cons.prems(1) have new: "new = Get ?rq # Sleep 340 # new'" by simp
      from first[OF this] have gc: "get_checked nt2 log EUTILS (page_params query chunk s) 60 =
          get_checked nt1 log EUTILS (page_params query chunk s) 60"
        by (rule get_checked_same)
      from Cons.prems(2) new have "same_answers nt1 nt2 ?log new'" by simp
      from Cons.IH[OF n' this] gc g Inr Some show ?thesis by simp
    qed
  qed
qed

lemma esearch_extends:
  "\<exists>new. fst (esearch_all_pmids it nt query chunk log) = log @ new"
proof -
  let ?rq = "\<lparr>url = EUTILS, params = count_params query,
              headers = session_headers session, timeout = 60\<rparr>"
  obtain x where g: "get_checked nt log EUTILS (count_params query) 60 = (log @ [Get ?rq], x)"
    using get_checked_pair by blast
  have f: "\<exists>new. fst (fetch_pages nt query chunk starts (log @ [Get ?rq]) []) = log @ new"
    for starts
    using fetch_pages_extends[of nt query chunk starts "log @ [Get ?rq]" "[]"] by auto
  show ?thesis
    unfolding esearch_all_pmids_def g
    using f by (auto split: sum.splits option.splits prod.splits) (metis fst_conv)+
qed

lemma esearch_same:
  assumes "fst (esearch_all_pmids it nt1 query chunk log) = log @ new"
    and "same_answers nt1 nt2 log new"
  shows "esearch_all_pmids it nt2 query chunk log = esearch_all_pmids it nt1 query chunk log"
proof -
  let ?rq = "\<lparr>url = EUTILS, params = count_params query,
              headers = session_headers session, timeout = 60\<rparr>"
  obtain x where g: "get_checked nt1 log EUTILS (count_params query) 60 = (log @ [Get ?rq], x)"
    using get_checked_pair by blast
  obtain rest' where new: "new = Get ?rq # rest'"
  proof -
    obtain n where n: "fst (esearch_all_pmids it nt1 query chunk log) = (log @ [Get ?rq]) @ n"
    proof -
      have "\<exists>n. fst (fetch_pages nt1 query chunk starts (log @ [Get ?rq]) []) = (log @ [Get ?rq]) @ n"
        for starts by (rule fetch_pages_extends)
      then have "\<exists>n. fst (esearch_all_pmids it nt1 query chunk log) = (log @ [Get ?rq]) @ n"
        unfolding esearch_all_pmids_def g
        by (auto split: sum.splits option.splits prod.splits) (metis fst_conv)+
      then show ?thesis using that by blast
    qed
    with assms(1) have "new = Get ?rq # n" by simp
    then show ?thesis by (rule that)
  qed
  with assms(2) have a: "nt1 log ?rq = nt2 log ?rq"
    and r: "same_answers nt1 nt2 (log @ [Get ?rq]) rest'" by simp_all
  from a have gc: "get_checked nt2 log EUTILS (count_params query) 60 =
      get_checked nt1 log EUTILS (count_params query) 60"
    by (rule get_checked_same)
  have fp: "fetch_pages nt2 query chunk starts (log @ [Get ?rq]) [] =
            fetch_pages nt1 query chunk starts (log @ [Get ?rq]) []"
    if "fst (fetch_pages nt1 query chunk starts (log @ [Get ?rq]) []) = (log @ [Get ?rq]) @ rest'"
    for starts
    using that r by (rule fetch_pages_same)
  show ?thesis
  proof (cases x)
    case (Inl e)
    with g gc show ?thesis by (simp add: esearch_all_pmids_def)
  next
    case (Inr resp)
    show ?thesis
    proof (cases "esearchresult (body resp)")
      case None
      with g gc Inr show ?thesis by (simp add: esearch_all_pmids_def)
    next
      case (Some er)
      show ?thesis
      proof (cases "count er")
        case None
        with g gc Inr Some show ?thesis by (simp add: esearch_all_pmids_def)
      next
        case c: (Some c)
        show ?thesis
        proof (cases "py_int c")
          case None
          with g gc Inr Some c show ?thesis by (simp add: esearch_all_pmids_def)
        next
          case n: (Some n)
          show ?thesis
          proof (cases "chunk = 0")
            case True
            with g gc Inr Some c n show ?thesis by (simp add: esearch_all_pmids_def)
          next
            case False
            let ?F = "fetch_pages nt1 query chunk (py_range 0 n chunk) (log @ [Get ?rq]) []"
            from assms(1) g Inr Some c n False have "fst ?F = log @ new"
              by (simp add: esearch_all_pmids_def split: prod.splits sum.splits)
            with new have "fst ?F = (log @ [Get ?rq]) @ rest'" by simp
            from fp[OF this] g gc Inr Some c n False show ?thesis
              by (simp add: esearch_all_pmids_def)
          qed
        qed
      qed
    qed
  qed
qed

lemma run_leading_zero_other:
  "esearch_all_pmids other_order leading_zero_service ''x'' 10000 [] =
     ([Get (count_request ''x''), Get (page_request ''x'' 10000 0), Sleep 340],
      Inr [''07'', ''7''])"
  by (simp add: leading_zero_service_def other_order_def collect_simps)

text \<open>
  Claim C9, as stated, fails: the order in which a set of strings is iterated is not
  fixed by the language and changes from one process to the next, and the stable sort
  keeps that order among identifiers of equal numeric value. Against one and the same
  service, which lists \<open>7\<close> and \<open>07\<close>, two iteration orders give two different sequences.
\<close>

theorem esearch_determinism_counterexample:
  "set_iteration (remdups :: string list \<Rightarrow> string list) \<and> set_iteration other_order \<and>
   snd (esearch_all_pmids remdups leading_zero_service ''x'' 10000 []) = Inr [''7'', ''07''] \<and>
   snd (esearch_all_pmids other_order leading_zero_service ''x'' 10000 []) = Inr [''07'', ''7''] \<and>
   [''7'', ''07''] \<noteq> [''07'', ''7'']"
  by (simp add: run_leading_zero run_leading_zero_other set_iteration_remdups
        set_iteration_other_order)

text \<open>
  Claim C9, amended. Two runs of the collector with the same query and chunk size, against
  services that give the same answers to the requests of the first run, return the same
  sequence (and issue the same requests), provided the two runs iterate sets in the same
  order or the identifiers returned have pairwise distinct numeric values.
\<close>

theorem esearch_deterministic:
  assumes "set_iteration it1" and "set_iteration it2"
    and "esearch_all_pmids it1 nt1 query chunk log = (log @ new, Inr ys)"
    and "same_answers nt1 nt2 log new"
    and "it1 = it2 \<or> inj_on py_int (set ys)"
  shows "esearch_all_pmids it2 nt2 query chunk log = (log @ new, Inr ys)"
proof -
  from assms(3) have "fst (esearch_all_pmids it1 nt1 query chunk log) = log @ new" by simp
  from esearch_same[OF this assms(4)] assms(3)
  have r2: "esearch_all_pmids it1 nt2 query chunk log = (log @ new, Inr ys)" by simp
  from assms(5) show ?thesis
  proof
    assume "it1 = it2"
    with r2 show ?thesis by simp
  next
    assume i: "inj_on py_int (set ys)"
    have s: "py_sorted int_key (it2 pmids) = Inr ys" if "py_sorted int_key (it1 pmids) = Inr ys"
      for pmids
      using assms(1,2) that i by (rule py_sorted_order_irrelevant)
    from r2 show ?thesis
      by (auto simp: esearch_all_pmids_def s split: prod.splits sum.splits option.splits if_splits)
  qed
qed

theorem esearch_deterministic_witness:
  "set_iteration (remdups :: string list \<Rightarrow> string list) \<and> set_iteration other_order \<and>
   esearch_all_pmids remdups numeric_order_service ''x'' 10000 [] =
     ([] @ [Get (count_request ''x''), Get (page_request ''x'' 10000 0), Sleep 340],
      Inr [''9'', ''10'']) \<and>
   same_answers numeric_order_service eutils_only_service []
     [Get (count_request ''x''), Get (page_request ''x'' 10000 0), Sleep 340] \<and>
   inj_on py_int (set [''9'', ''10'']) \<and>
   esearch_all_pmids other_order eutils_only_service ''x'' 10000 [] =
     ([] @ [Get (count_request ''x''), Get (page_request ''x'' 10000 0), Sleep 340],
      Inr [''9'', ''10''])"
proof -
  have s: "set_iteration (remdups :: string list \<Rightarrow> string list)"
    by (rule set_iteration_remdups)
  have r: "esearch_all_pmids remdups numeric_order_service ''x'' 10000 [] =
     ([] @ [Get (count_request ''x''), Get (page_request ''x'' 10000 0), Sleep 340],
      Inr [''9'', ''10''])"
    by (simp add: run_numeric_order)
  have a: "same_answers numeric_order_service eutils_only_service []
     [Get (count_request ''x''), Get (page_request ''x'' 10000 0), Sleep 340]"
    by (simp add: numeric_order_service_def eutils_only_service_def always_def
          count_request_def page_request_def)
  have i: "inj_on py_int (set [''9'', ''10''])"
    by (simp add: py_int_digits)
  from esearch_deterministic[OF s set_iteration_other_order r a disjI2, OF i] s r a i
  show ?thesis
    by (simp add: set_iteration_other_order)
qed

section \<open>The concepts argument\<close>








section \<open>Failures of the transport and the report of main\<close>





















end
